theory Spec2Isabelle
  imports Complex_Main "HOL-Library.Word"
begin

section \<open>Watermark engine: data model\<close>

text \<open>
  The engine of \<^verbatim>\<open>src/core/watermarkEngine.js\<close>. JavaScript numbers that hold image
  dimensions and coordinates are integers here (\<open>int\<close>: a detected coordinate may be
  negative). A watermark configuration is the object \<^verbatim>\<open>{logoSize, marginRight, marginBottom}\<close>,
  a position the object \<^verbatim>\<open>{x, y, width, height}\<close>.
\<close>

record WatermarkConfig =
  logoSize :: int
  marginRight :: int
  marginBottom :: int

record Rectangle =
  rect_x :: int
  rect_y :: int
  rect_width :: int
  rect_height :: int

record WatermarkInfo =
  size :: int
  position :: Rectangle
  config :: WatermarkConfig

section \<open>Position detection\<close>

definition detectWatermarkConfig :: "int \<Rightarrow> int \<Rightarrow> WatermarkConfig" where
  "detectWatermarkConfig imageWidth imageHeight =
     (if imageWidth > 1024 \<and> imageHeight > 1024
      then \<lparr>logoSize = 96, marginRight = 64, marginBottom = 64\<rparr>
      else \<lparr>logoSize = 48, marginRight = 32, marginBottom = 32\<rparr>)"

definition calculateWatermarkPosition :: "int \<Rightarrow> int \<Rightarrow> WatermarkConfig \<Rightarrow> Rectangle" where
  "calculateWatermarkPosition imageWidth imageHeight cfg =
     \<lparr>rect_x = imageWidth - marginRight cfg - logoSize cfg,
      rect_y = imageHeight - marginBottom cfg - logoSize cfg,
      rect_width = logoSize cfg,
      rect_height = logoSize cfg\<rparr>"

definition getWatermarkInfo :: "int \<Rightarrow> int \<Rightarrow> WatermarkInfo" where
  "getWatermarkInfo imageWidth imageHeight =
     (let cfg = detectWatermarkConfig imageWidth imageHeight;
          pos = calculateWatermarkPosition imageWidth imageHeight cfg
      in \<lparr>size = logoSize cfg, position = pos, config = cfg\<rparr>)"

section \<open>Alpha-map cache\<close>

text \<open>
  The cache key is the template string \<^verbatim>\<open>`${width}x${height}`\<close>: the two numbers in
  decimal with the letter x between them. Integers are rendered as JavaScript renders
  them below \<open>10^21\<close>: an optional minus sign and the decimal digits.
\<close>

definition digitChar :: "nat \<Rightarrow> char" where
  "digitChar d = ''0123456789'' ! d"

function showNat :: "nat \<Rightarrow> string" where
  "showNat n = (if n < 10 then [digitChar n] else showNat (n div 10) @ [digitChar (n mod 10)])"
  by pat_completeness auto
termination
  by (relation "measure id") auto

definition numberToString :: "int \<Rightarrow> string" where
  "numberToString i = (if i < 0 then CHR ''-'' # showNat (nat (- i)) else showNat (nat i))"

definition cacheKey :: "int \<Rightarrow> int \<Rightarrow> string" where
  "cacheKey width height = numberToString width @ ''x'' @ numberToString height"

text \<open>
  Modelled from the spec: the alpha map that \<^verbatim>\<open>calculateAlphaMap\<close> of the module
  \<^verbatim>\<open>alphaMap.js\<close> (not among the sources) returns, a dense grid of opacity coefficients
  with its dimensions, stored row by row. The coefficients are exact rationals (every
  finite float is one), and the arithmetic on them is exact.
\<close>

record AlphaMap =
  am_width :: nat
  am_height :: nat
  am_data :: "rat list"

record 'img BgCaptures =
  bg48 :: 'img
  bg96 :: 'img

text \<open>
  The engine object: the two background captures and the cache \<^verbatim>\<open>alphaMaps\<close>, an object
  used as a dictionary from key strings to alpha maps. The field \<open>calcCount\<close> is
  instrumentation added by the model: it counts how often an alpha map was derived.
\<close>

record 'img WatermarkEngine =
  bgCaptures :: "'img BgCaptures"
  alphaMaps :: "string \<rightharpoonup> AlphaMap"
  calcCount :: nat

text \<open>
  \<^verbatim>\<open>getAlphaMap(width, height = width)\<close>. The absent second argument is \<open>None\<close>. The
  function has no \<^verbatim>\<open>await\<close> in its body, so it runs from entry to return without
  interleaving; it takes the engine and returns the alpha map with the updated engine.
  Scaling the chosen capture on a canvas to the requested size, reading the pixels back and
  \<^verbatim>\<open>calculateAlphaMap\<close> (module \<^verbatim>\<open>alphaMap.js\<close>) are the parameter \<open>calc\<close>: the capture
  and the requested size in, the alpha map out. A stored alpha map is an object, hence
  truthy: the cache test succeeds exactly when the key is present.
\<close>

definition getAlphaMap ::
  "('img \<Rightarrow> int \<Rightarrow> int \<Rightarrow> AlphaMap) \<Rightarrow> 'img WatermarkEngine \<Rightarrow> int \<Rightarrow> int option
     \<Rightarrow> AlphaMap \<times> 'img WatermarkEngine" where
  "getAlphaMap calc eng width heightArg =
     (let height = (case heightArg of None \<Rightarrow> width | Some h \<Rightarrow> h);
          key = cacheKey width height
      in case alphaMaps eng key of
           Some cached \<Rightarrow> (cached, eng)
         | None \<Rightarrow>
             (let bgImage = (if max width height > 72 then bg96 (bgCaptures eng)
                             else bg48 (bgCaptures eng));
                  alphaMap = calc bgImage width height
              in (alphaMap,
                  eng\<lparr>alphaMaps := (alphaMaps eng)(key \<mapsto> alphaMap),
                      calcCount := Suc (calcCount eng)\<rparr>)))"

section \<open>Removal transform\<close>

text \<open>
  Pixel data as the canvas gives it: width, height and the bytes, four per pixel (red,
  green, blue, alpha), row by row.
\<close>

record ImageData =
  img_width :: nat
  img_height :: nat
  img_data :: "8 word list"

text \<open>
  What can go wrong inside the transform: a read outside the pixel buffer or outside the
  alpha map, and a division by zero.
\<close>

datatype error = OutOfBounds | DivisionByZero

text \<open>A loop over a list that carries the buffer along and stops at the first error.\<close>

fun foldE :: "('a \<Rightarrow> 's \<Rightarrow> error + 's) \<Rightarrow> 'a list \<Rightarrow> 's \<Rightarrow> error + 's" where
  "foldE f [] s = Inr s"
| "foldE f (a # as) s = (case f a s of Inl e \<Rightarrow> Inl e | Inr s' \<Rightarrow> foldE f as s')"

text \<open>
  Modelled from the spec: the removal transform \<^verbatim>\<open>removeWatermark\<close> is imported from the
  module \<^verbatim>\<open>blendModes.js\<close>, which is not among the sources. The definitions from here to
  \<open>removeWatermark\<close> follow section 4.3 of the specification. The division of its formula
  reports a zero divisor instead of returning a value.
\<close>

definition divide :: "rat \<Rightarrow> rat \<Rightarrow> error + rat" where
  "divide a b = (if b = 0 then Inl DivisionByZero else Inr (a / b))"

text \<open>
  Modelled from the spec: \<^verbatim>\<open>clamp(v, 0, 255)\<close> of an already rounded value, stored as a
  byte (part of the missing \<^verbatim>\<open>removeWatermark\<close>).
\<close>

definition clampByte :: "int \<Rightarrow> 8 word" where
  "clampByte v = word_of_int (max 0 (min 255 v))"

text \<open>
  Modelled from the spec: \<^verbatim>\<open>pixels[x,y,c]\<close> of the missing \<^verbatim>\<open>removeWatermark\<close>, the position
  of channel \<open>c\<close> of pixel \<open>(x, y)\<close> in a row-major buffer of width \<open>W\<close> with four bytes per
  pixel.
\<close>

definition pixelIndex :: "nat \<Rightarrow> nat \<Rightarrow> nat \<Rightarrow> nat \<Rightarrow> nat" where
  "pixelIndex W x y c = (y * W + x) * 4 + c"

text \<open>
  Modelled from the spec: \<^verbatim>\<open>alphaMap[col, row]\<close> of the missing \<^verbatim>\<open>removeWatermark\<close>, a read
  of the grid that reports a position outside it.
\<close>

definition alphaAt :: "AlphaMap \<Rightarrow> int \<Rightarrow> int \<Rightarrow> error + rat" where
  "alphaAt am col row =
     (if 0 \<le> col \<and> col < int (am_width am) \<and> 0 \<le> row \<and> row < int (am_height am)
         \<and> nat row * am_width am + nat col < length (am_data am)
      then Inr (am_data am ! (nat row * am_width am + nat col))
      else Inl OutOfBounds)"

text \<open>
  Modelled from the spec: the per-channel inversion of the missing \<^verbatim>\<open>removeWatermark\<close>,
  \<^verbatim>\<open>if alpha < 1: original = (observed - alpha * LOGO_COLOR[c]) / (1 - alpha) else: original = observed\<close>,
  then \<^verbatim>\<open>clamp(round(original), 0, 255)\<close>. Rounding is to the nearest integer, a half
  upwards.
\<close>

definition invertChannel :: "rat \<Rightarrow> rat \<Rightarrow> 8 word \<Rightarrow> error + 8 word" where
  "invertChannel alpha logoColor observed =
     (case (if alpha < 1
            then divide (of_nat (unat observed) - alpha * logoColor) (1 - alpha)
            else Inr (of_nat (unat observed))) of
        Inl e \<Rightarrow> Inl e
      | Inr original \<Rightarrow> Inr (clampByte (round original)))"

text \<open>
  Modelled from the spec: one assignment \<^verbatim>\<open>pixels[x,y,c] = ...\<close> of the missing
  \<^verbatim>\<open>removeWatermark\<close>; the buffer is read and written at a checked index. \<open>LOGO_COLOR\<close>,
  a constant of the missing module, is the parameter \<open>logo\<close>: one value per channel.
\<close>

definition restoreChannel ::
  "(nat \<Rightarrow> rat) \<Rightarrow> rat \<Rightarrow> nat \<Rightarrow> nat \<Rightarrow> nat \<Rightarrow> nat \<Rightarrow> 8 word list \<Rightarrow> error + 8 word list" where
  "restoreChannel logo alpha W x y c pixels =
     (let i = pixelIndex W x y c
      in if i < length pixels
         then (case invertChannel alpha (logo c) (pixels ! i) of
                 Inl e \<Rightarrow> Inl e
               | Inr v \<Rightarrow> Inr (pixels[i := v]))
         else Inl OutOfBounds)"

text \<open>
  Modelled from the spec: the body of the pixel loop of the missing \<^verbatim>\<open>removeWatermark\<close>:
  \<^verbatim>\<open>alpha = alphaMap[x - rect.x, y - rect.y]\<close>, then the three colour channels. The fourth
  byte of the pixel, its alpha channel, is not visited.
\<close>

definition restorePixel ::
  "(nat \<Rightarrow> rat) \<Rightarrow> AlphaMap \<Rightarrow> Rectangle \<Rightarrow> nat \<Rightarrow> nat \<Rightarrow> nat \<Rightarrow> 8 word list
     \<Rightarrow> error + 8 word list" where
  "restorePixel logo alphaMap rect W y x pixels =
     (case alphaAt alphaMap (int x - rect_x rect) (int y - rect_y rect) of
        Inl e \<Rightarrow> Inl e
      | Inr alpha \<Rightarrow> foldE (restoreChannel logo alpha W x y) [0..<3] pixels)"

text \<open>
  Modelled from the spec: the pixels of one row of the clipped rectangle, left to right
  (missing \<^verbatim>\<open>removeWatermark\<close>).
\<close>

definition restoreRow ::
  "(nat \<Rightarrow> rat) \<Rightarrow> AlphaMap \<Rightarrow> Rectangle \<Rightarrow> nat \<Rightarrow> nat \<Rightarrow> nat \<Rightarrow> nat \<Rightarrow> 8 word list
     \<Rightarrow> error + 8 word list" where
  "restoreRow logo alphaMap rect W x0 x1 y pixels =
     foldE (restorePixel logo alphaMap rect W y) [x0..<x1] pixels"

text \<open>
  Modelled from the spec: the missing \<^verbatim>\<open>removeWatermark(imageData, alphaMap, position)\<close>.
  The rectangle is clipped to the image bounds before any pixel is read; a clipped
  rectangle of zero or negative width or height makes the transform return the image as
  it is; otherwise every pixel of the clipped rectangle is restored, row by row. The alpha
  map is addressed relative to the unclipped rectangle. That the alpha map has the
  rectangle's dimensions is the transform's precondition (\<open>alphaFits\<close> below).
\<close>

definition removeWatermark ::
  "(nat \<Rightarrow> rat) \<Rightarrow> ImageData \<Rightarrow> AlphaMap \<Rightarrow> Rectangle \<Rightarrow> error + ImageData" where
  "removeWatermark logo imageData alphaMap rect =
     (let x0 = max 0 (rect_x rect);
          y0 = max 0 (rect_y rect);
          x1 = min (int (img_width imageData)) (rect_x rect + rect_width rect);
          y1 = min (int (img_height imageData)) (rect_y rect + rect_height rect)
      in if x1 - x0 \<le> 0 \<or> y1 - y0 \<le> 0 then Inr imageData
         else (case foldE (restoreRow logo alphaMap rect (img_width imageData) (nat x0) (nat x1))
                      [nat y0..<nat y1] (img_data imageData) of
                 Inl e \<Rightarrow> Inl e
               | Inr pixels \<Rightarrow> Inr (imageData\<lparr>img_data := pixels\<rparr>)))"

section \<open>Engine facade\<close>

text \<open>
  \<^verbatim>\<open>removeWatermarkFromImage(image, customPosition = null)\<close>. The canvas the image is drawn
  onto is a fresh copy of the image's pixels; the function works on that copy and returns
  it. A \<^verbatim>\<open>null\<close> custom position is \<open>None\<close>. The canvas calls are taken to succeed:
  what the platform does with a canvas of width or height zero is not part of the model.
\<close>

definition removeWatermarkFromImage ::
  "('img \<Rightarrow> int \<Rightarrow> int \<Rightarrow> AlphaMap) \<Rightarrow> (nat \<Rightarrow> rat) \<Rightarrow> 'img WatermarkEngine \<Rightarrow> ImageData
     \<Rightarrow> Rectangle option \<Rightarrow> (error + ImageData) \<times> 'img WatermarkEngine" where
  "removeWatermarkFromImage calc logo eng img customPosition =
     (let imageData = img;
          pos = (case customPosition of
                   Some p \<Rightarrow> p
                 | None \<Rightarrow>
                     (let cfg = detectWatermarkConfig (int (img_width imageData))
                                  (int (img_height imageData))
                      in calculateWatermarkPosition (int (img_width imageData))
                           (int (img_height imageData)) cfg));
          (alphaMap, eng') = getAlphaMap calc eng (rect_width pos) (Some (rect_height pos))
      in (removeWatermark logo imageData alphaMap pos, eng'))"

text \<open>The rectangle that \<^verbatim>\<open>removeWatermarkFromImage\<close> resolves: the custom one, else the detected one.\<close>

definition resolvedPosition :: "ImageData \<Rightarrow> Rectangle option \<Rightarrow> Rectangle" where
  "resolvedPosition img customPosition =
     (case customPosition of
        Some p \<Rightarrow> p
      | None \<Rightarrow> calculateWatermarkPosition (int (img_width img)) (int (img_height img))
                 (detectWatermarkConfig (int (img_width img)) (int (img_height img))))"

section \<open>Notions used in the statements\<close>

text \<open>Pixel \<open>(x, y)\<close> lies inside a rectangle.\<close>

definition insideRect :: "Rectangle \<Rightarrow> nat \<Rightarrow> nat \<Rightarrow> bool" where
  "insideRect r x y \<longleftrightarrow>
     rect_x r \<le> int x \<and> int x < rect_x r + rect_width r
     \<and> rect_y r \<le> int y \<and> int y < rect_y r + rect_height r"

text \<open>The buffer has four bytes for every pixel of the image.\<close>

definition wellFormed :: "ImageData \<Rightarrow> bool" where
  "wellFormed img \<longleftrightarrow> length (img_data img) = img_width img * img_height img * 4"

text \<open>The transform's precondition: the alpha map has the dimensions of the rectangle.\<close>

definition alphaFits :: "AlphaMap \<Rightarrow> Rectangle \<Rightarrow> bool" where
  "alphaFits am r \<longleftrightarrow>
     int (am_width am) = rect_width r \<and> int (am_height am) = rect_height r
     \<and> length (am_data am) = am_width am * am_height am"

text \<open>
  The relation between a buffer before and after a loop: the length is kept, the indices
  outside \<open>K\<close> keep their value, and the old and new value at an index in \<open>K\<close> are related
  by \<open>E\<close>.
\<close>

definition upd_rel :: "nat set \<Rightarrow> (nat \<Rightarrow> 'a \<Rightarrow> 'a \<Rightarrow> bool) \<Rightarrow> 'a list \<Rightarrow> 'a list \<Rightarrow> bool" where
  "upd_rel K E s s' \<longleftrightarrow>
     length s' = length s \<and> (\<forall>i. i \<notin> K \<longrightarrow> s' ! i = s ! i) \<and> (\<forall>i\<in>K. E i (s ! i) (s' ! i))"

text \<open>The old and new value at a restored index: the inversion of some colour channel of some pixel.\<close>

definition restored ::
  "(nat \<Rightarrow> rat) \<Rightarrow> AlphaMap \<Rightarrow> Rectangle \<Rightarrow> nat \<Rightarrow> nat \<Rightarrow> 8 word \<Rightarrow> 8 word \<Rightarrow> bool" where
  "restored logo am r W i old new \<longleftrightarrow>
     (\<exists>x y c alpha. x < W \<and> c < 3 \<and> i = pixelIndex W x y c
        \<and> alphaAt am (int x - rect_x r) (int y - rect_y r) = Inr alpha
        \<and> invertChannel alpha (logo c) old = Inr new)"

text \<open>The indices of the colour channels of a pixel, of a row segment, of the clipped rectangle.\<close>

definition pixelSet :: "nat \<Rightarrow> nat \<Rightarrow> nat \<Rightarrow> nat set" where
  "pixelSet W x y = (\<Union>c\<in>set [0..<3]. {pixelIndex W x y c})"

definition rowSet :: "nat \<Rightarrow> nat \<Rightarrow> nat \<Rightarrow> nat \<Rightarrow> nat set" where
  "rowSet W x0 x1 y = (\<Union>x\<in>set [x0..<x1]. pixelSet W x y)"

definition touched :: "ImageData \<Rightarrow> Rectangle \<Rightarrow> nat set" where
  "touched img r =
     {i. \<exists>x y c. insideRect r x y \<and> x < img_width img \<and> y < img_height img \<and> c < 3
           \<and> i = pixelIndex (img_width img) x y c}"

section \<open>Example values\<close>

text \<open>
  An engine with an empty cache whose captures are told apart by a flag, a calibration
  that gives every coefficient one half for the 96 capture and one quarter for the 48
  capture, a white logo, and a 2 by 2 image with rectangles and alpha maps for it; the
  rectangle \<open>rect3\<close> overhangs the image on all four sides.
\<close>

definition engine0 :: "bool WatermarkEngine" where
  "engine0 = \<lparr>bgCaptures = \<lparr>bg48 = False, bg96 = True\<rparr>, alphaMaps = Map.empty, calcCount = 0\<rparr>"

definition calc0 :: "bool \<Rightarrow> int \<Rightarrow> int \<Rightarrow> AlphaMap" where
  "calc0 capture w h =
     \<lparr>am_width = nat w, am_height = nat h,
      am_data = replicate (nat w * nat h) (if capture then 1 / 2 else 1 / 4)\<rparr>"

definition logo0 :: "nat \<Rightarrow> rat" where
  "logo0 c = 255"

definition image0 :: ImageData where
  "image0 = \<lparr>img_width = 2, img_height = 2,
      img_data = [10, 20, 30, 255,  40, 50, 60, 255,  200, 210, 220, 255,  70, 80, 90, 128]\<rparr>"

definition alphaMap0 :: AlphaMap where
  "alphaMap0 = \<lparr>am_width = 2, am_height = 1, am_data = [1 / 2, 1]\<rparr>"

definition rect0 :: Rectangle where
  "rect0 = \<lparr>rect_x = 0, rect_y = 1, rect_width = 2, rect_height = 1\<rparr>"

definition restored0 :: ImageData where
  "restored0 = \<lparr>img_width = 2, img_height = 2,
      img_data = [10, 20, 30, 255,  40, 50, 60, 255,  145, 165, 185, 255,  70, 80, 90, 128]\<rparr>"

definition rect1 :: Rectangle where
  "rect1 = \<lparr>rect_x = 1, rect_y = 1, rect_width = 2, rect_height = 2\<rparr>"

definition alphaMap1 :: AlphaMap where
  "alphaMap1 = \<lparr>am_width = 2, am_height = 2, am_data = [1 / 4, 1 / 4, 1 / 4, 1 / 4]\<rparr>"

definition restored1 :: ImageData where
  "restored1 = \<lparr>img_width = 2, img_height = 2,
      img_data = [10, 20, 30, 255,  40, 50, 60, 255,  200, 210, 220, 255,  8, 22, 35, 128]\<rparr>"

definition rect2 :: Rectangle where
  "rect2 = \<lparr>rect_x = 5, rect_y = -3, rect_width = 2, rect_height = 2\<rparr>"

definition rect3 :: Rectangle where
  "rect3 = \<lparr>rect_x = - 1, rect_y = - 1, rect_width = 4, rect_height = 4\<rparr>"

definition alphaMap3 :: AlphaMap where
  "alphaMap3 = \<lparr>am_width = 4, am_height = 4,
      am_data = [3 / 4, 3 / 4, 3 / 4, 3 / 4,
                 3 / 4, 1 / 20, 1 / 10, 3 / 4,
                 3 / 4, 1 / 2, 1, 3 / 4,
                 3 / 4, 3 / 4, 3 / 4, 3 / 4]\<rparr>"

definition restored3 :: ImageData where
  "restored3 = \<lparr>img_width = 2, img_height = 2,
      img_data = [0, 8, 18, 255,  16, 27, 38, 255,  145, 165, 185, 255,  70, 80, 90, 128]\<rparr>"

section \<open>Properties of position detection\<close>

text \<open>
  C1. Tier detection returns the 96 tier (logoSize 96, margins 64) exactly when both the
  width and the height exceed 1024, and the 48 tier (logoSize 48, margins 32) in every
  other case; at width 1024 and height 1025 it is the 48 tier.
\<close>

theorem detectWatermarkConfig_tiers:
  "(detectWatermarkConfig w h = \<lparr>logoSize = 96, marginRight = 64, marginBottom = 64\<rparr>
      \<longleftrightarrow> w > 1024 \<and> h > 1024)
   \<and> (detectWatermarkConfig w h = \<lparr>logoSize = 48, marginRight = 32, marginBottom = 32\<rparr>
      \<longleftrightarrow> \<not> (w > 1024 \<and> h > 1024))
   \<and> detectWatermarkConfig 1024 1025 = \<lparr>logoSize = 48, marginRight = 32, marginBottom = 32\<rparr>"
  by (simp add: detectWatermarkConfig_def)

theorem detectWatermarkConfig_tiers_witness:
  "detectWatermarkConfig 2000 2000 = \<lparr>logoSize = 96, marginRight = 64, marginBottom = 64\<rparr>
   \<and> detectWatermarkConfig 2000 1024 = \<lparr>logoSize = 48, marginRight = 32, marginBottom = 32\<rparr>"
  using detectWatermarkConfig_tiers [of 2000 2000] detectWatermarkConfig_tiers [of 2000 1024]
  by simp

text \<open>
  C2. The detected rectangle is anchored to the bottom-right corner: its x is the image
  width minus the right margin minus the logo size, its y the image height minus the
  bottom margin minus the logo size, its width and height the logo size. For the 48 tier
  on an 800 by 600 image it is x = 720, y = 520, width = height = 48.
\<close>

theorem calculateWatermarkPosition_anchored:
  "rect_x (calculateWatermarkPosition W H cfg) = W - marginRight cfg - logoSize cfg
   \<and> rect_y (calculateWatermarkPosition W H cfg) = H - marginBottom cfg - logoSize cfg
   \<and> rect_width (calculateWatermarkPosition W H cfg) = logoSize cfg
   \<and> rect_height (calculateWatermarkPosition W H cfg) = logoSize cfg
   \<and> calculateWatermarkPosition 800 600 (detectWatermarkConfig 800 600)
       = \<lparr>rect_x = 720, rect_y = 520, rect_width = 48, rect_height = 48\<rparr>"
  by (simp add: calculateWatermarkPosition_def detectWatermarkConfig_def)

text \<open>
  C8, as the code has it. The detector returns the arithmetic result: the rectangle's
  width and height both equal the logo size of the detected tier, which is positive, and
  its right and bottom edges never pass the image's, but x is non-negative exactly from
  image width 80 on and y exactly from image height 80 on; a smaller image gets a
  negative coordinate.
\<close>

theorem detected_rectangle_bounds:
  "rect_width (position (getWatermarkInfo W H)) = logoSize (detectWatermarkConfig W H)
   \<and> rect_height (position (getWatermarkInfo W H)) = logoSize (detectWatermarkConfig W H)
   \<and> size (getWatermarkInfo W H) = logoSize (detectWatermarkConfig W H)
   \<and> logoSize (detectWatermarkConfig W H) > 0
   \<and> rect_width (position (getWatermarkInfo W H)) > 0
   \<and> rect_height (position (getWatermarkInfo W H)) > 0
   \<and> rect_x (position (getWatermarkInfo W H)) + rect_width (position (getWatermarkInfo W H)) \<le> W
   \<and> rect_y (position (getWatermarkInfo W H)) + rect_height (position (getWatermarkInfo W H)) \<le> H
   \<and> (0 \<le> rect_x (position (getWatermarkInfo W H)) \<longleftrightarrow> 80 \<le> W)
   \<and> (0 \<le> rect_y (position (getWatermarkInfo W H)) \<longleftrightarrow> 80 \<le> H)"
  by (simp add: getWatermarkInfo_def calculateWatermarkPosition_def detectWatermarkConfig_def
      Let_def)

theorem detected_rectangle_bounds_witness:
  "0 \<le> rect_x (position (getWatermarkInfo 80 2000))
   \<and> 0 \<le> rect_y (position (getWatermarkInfo 80 2000))
   \<and> rect_width (position (getWatermarkInfo 80 2000)) = 48
   \<and> rect_height (position (getWatermarkInfo 80 2000)) = 48
   \<and> rect_x (position (getWatermarkInfo 80 2000)) + rect_width (position (getWatermarkInfo 80 2000)) \<le> 80"
  using detected_rectangle_bounds [of 80 2000] by (simp add: detectWatermarkConfig_def)

text \<open>
  C8 as stated fails: the dimensions 50 by 50 are positive, and the detected rectangle has
  x = y = -30.
\<close>

theorem detected_rectangle_negative_counterexample:
  "\<not> (0 < (50::int) \<and> 0 < (50::int)
      \<longrightarrow> 0 \<le> rect_x (position (getWatermarkInfo 50 50))
        \<and> 0 \<le> rect_y (position (getWatermarkInfo 50 50))
        \<and> 0 \<le> rect_width (position (getWatermarkInfo 50 50))
        \<and> 0 \<le> rect_height (position (getWatermarkInfo 50 50))
        \<and> rect_x (position (getWatermarkInfo 50 50)) + rect_width (position (getWatermarkInfo 50 50)) \<le> 50
        \<and> rect_y (position (getWatermarkInfo 50 50)) + rect_height (position (getWatermarkInfo 50 50)) \<le> 50)"
  by (simp add: getWatermarkInfo_def calculateWatermarkPosition_def detectWatermarkConfig_def
      Let_def)




section \<open>The cache key\<close>

declare showNat.simps [simp del]

lemma digitChar_inj: "a < 10 \<Longrightarrow> b < 10 \<Longrightarrow> digitChar a = digitChar b \<Longrightarrow> a = b"
proof -
  assume a: "a < 10" and b: "b < 10" and e: "digitChar a = digitChar b"
  have d: "distinct ''0123456789''" by simp
  have "a < length ''0123456789''" "b < length ''0123456789''" using a b by simp_all
  with d e show "a = b" unfolding digitChar_def by (simp only: nth_eq_iff_index_eq)
qed

lemma digitChar_mem: "d < 10 \<Longrightarrow> digitChar d \<in> set ''0123456789''"
  unfolding digitChar_def by (rule nth_mem) simp

lemma showNat_digits: "set (showNat n) \<subseteq> set ''0123456789''"
proof (induction n rule: showNat.induct)
  case (1 n)
  show ?case
  proof (cases "n < 10")
    case True
    then show ?thesis using digitChar_mem [of n] by (subst showNat.simps) simp
  next
    case False
    have "n mod 10 < 10" by simp
    then have "digitChar (n mod 10) \<in> set ''0123456789''" by (rule digitChar_mem)
    with False 1 show ?thesis by (subst showNat.simps) simp
  qed
qed

lemma showNat_length: "length (showNat n) = 1 \<longleftrightarrow> n < 10"
proof (cases "n < 10")
  case True
  then show ?thesis by (subst showNat.simps) simp
next
  case False
  have "showNat (n div 10) \<noteq> []" by (subst showNat.simps) simp
  with False show ?thesis by (subst showNat.simps) simp
qed

lemma showNat_inj: "showNat n = showNat m \<Longrightarrow> n = m"
proof (induction n arbitrary: m rule: showNat.induct)
  case (1 n)
  from "1.prems" have len: "n < 10 \<longleftrightarrow> m < 10"
    using showNat_length [of n] showNat_length [of m] by simp
  show ?case
  proof (cases "n < 10")
    case True
    with len have m: "m < 10" by simp
    from True m "1.prems" have "digitChar n = digitChar m"
      by (simp add: showNat.simps [of n] showNat.simps [of m])
    with True m show ?thesis by (rule digitChar_inj)
  next
    case False
    with len have m: "\<not> m < 10" by simp
    from False m "1.prems"
    have e: "showNat (n div 10) @ [digitChar (n mod 10)] = showNat (m div 10) @ [digitChar (m mod 10)]"
      by (simp add: showNat.simps [of n] showNat.simps [of m])
    then have "showNat (n div 10) = showNat (m div 10)" and d: "digitChar (n mod 10) = digitChar (m mod 10)"
      by simp_all
    with False "1.IH" have q: "n div 10 = m div 10" by blast
    have "n mod 10 = m mod 10" using d by (intro digitChar_inj) simp_all
    with q have "10 * (n div 10) + n mod 10 = 10 * (m div 10) + m mod 10" by simp
    then show ?thesis by simp
  qed
qed

lemma showNat_not_digit: "c \<notin> set ''0123456789'' \<Longrightarrow> c \<notin> set (showNat n)"
  using showNat_digits [of n] by blast

lemma showNat_no_x: "CHR ''x'' \<notin> set (showNat n)"
  by (rule showNat_not_digit) simp

lemma showNat_no_minus: "showNat n \<noteq> CHR ''-'' # s"
proof
  assume "showNat n = CHR ''-'' # s"
  then have "CHR ''-'' \<in> set (showNat n)" by simp
  moreover have "CHR ''-'' \<notin> set (showNat n)" by (rule showNat_not_digit) simp
  ultimately show False by simp
qed

lemma numberToString_no_x: "CHR ''x'' \<notin> set (numberToString i)"
  by (simp add: numberToString_def showNat_no_x)

lemma numberToString_inj: "numberToString i = numberToString j \<Longrightarrow> i = j"
proof -
  assume e: "numberToString i = numberToString j"
  consider "i < 0" "j < 0" | "i < 0" "\<not> j < 0" | "\<not> i < 0" "j < 0" | "\<not> i < 0" "\<not> j < 0"
    by blast
  then show "i = j"
  proof cases
    case 1
    with e have "showNat (nat (- i)) = showNat (nat (- j))" by (simp add: numberToString_def)
    then have "nat (- i) = nat (- j)" by (rule showNat_inj)
    with 1 show ?thesis by simp
  next
    case 2
    with e have "showNat (nat j) = CHR ''-'' # showNat (nat (- i))"
      by (simp add: numberToString_def)
    with showNat_no_minus show ?thesis by blast
  next
    case 3
    with e have "showNat (nat i) = CHR ''-'' # showNat (nat (- j))"
      by (simp add: numberToString_def)
    with showNat_no_minus show ?thesis by blast
  next
    case 4
    with e have "showNat (nat i) = showNat (nat j)" by (simp add: numberToString_def)
    then have "nat i = nat j" by (rule showNat_inj)
    with 4 show ?thesis by simp
  qed
qed

lemma cacheKey_inj: "cacheKey w h = cacheKey w' h' \<longleftrightarrow> w = w' \<and> h = h'"
proof
  assume "cacheKey w h = cacheKey w' h'"
  then have "numberToString w @ CHR ''x'' # numberToString h
           = numberToString w' @ CHR ''x'' # numberToString h'"
    by (simp add: cacheKey_def)
  then have "numberToString w = numberToString w' \<and> numberToString h = numberToString h'"
    using append_Cons_eq_iff [OF numberToString_no_x [of w] numberToString_no_x [of h]]
    by simp
  then show "w = w' \<and> h = h'" by (blast dest: numberToString_inj)
qed simp

section \<open>Properties of the alpha-map cache\<close>

text \<open>
  C6. getAlphaMap is cached by the exact (width, height) key: a second call with the same
  pair, on the engine the first call left, returns the same alpha map and leaves the
  engine as it is, so nothing is derived again (the derivation count stays); the map a
  call returns is the cache entry of its pair afterwards; no call changes or removes an
  entry that is present; and two pairs have the same cache key only if they are the same
  pair.
\<close>

theorem getAlphaMap_cached:
  "getAlphaMap calc (snd (getAlphaMap calc eng w h)) w h
     = (fst (getAlphaMap calc eng w h), snd (getAlphaMap calc eng w h))
   \<and> calcCount (snd (getAlphaMap calc (snd (getAlphaMap calc eng w h)) w h))
     = calcCount (snd (getAlphaMap calc eng w h))
   \<and> alphaMaps (snd (getAlphaMap calc eng w (Some h'))) (cacheKey w h')
     = Some (fst (getAlphaMap calc eng w (Some h')))
   \<and> (alphaMaps eng k = Some m \<longrightarrow> alphaMaps (snd (getAlphaMap calc eng w2 h2)) k = Some m)
   \<and> (cacheKey w3 h3 = cacheKey w4 h4 \<longleftrightarrow> w3 = w4 \<and> h3 = h4)"
  by (auto simp add: getAlphaMap_def Let_def cacheKey_inj split: option.splits)

theorem getAlphaMap_cached_witness:
  "getAlphaMap calc0 (snd (getAlphaMap calc0 engine0 48 (Some 48))) 48 (Some 48)
     = (calc0 False 48 48, snd (getAlphaMap calc0 engine0 48 (Some 48)))
   \<and> calcCount (snd (getAlphaMap calc0 (snd (getAlphaMap calc0 engine0 48 (Some 48))) 48 (Some 48))) = 1
   \<and> alphaMaps (snd (getAlphaMap calc0 engine0 48 (Some 48))) (cacheKey 48 48) = Some (calc0 False 48 48)
   \<and> alphaMaps (snd (getAlphaMap calc0 (snd (getAlphaMap calc0 engine0 48 (Some 48))) 96 (Some 96)))
         (cacheKey 48 48) = Some (calc0 False 48 48)"
proof -
  let ?e1 = "snd (getAlphaMap calc0 engine0 48 (Some 48))"
  note c = getAlphaMap_cached [where calc = calc0 and eng = engine0 and w = 48 and h = "Some 48"
      and h' = 48]
  have f: "fst (getAlphaMap calc0 engine0 48 (Some 48)) = calc0 False 48 48"
    by (simp add: getAlphaMap_def engine0_def Let_def)
  have n: "calcCount ?e1 = 1"
    by (simp add: getAlphaMap_def engine0_def Let_def)
  from c f have s: "alphaMaps ?e1 (cacheKey 48 48) = Some (calc0 False 48 48)" by simp
  from getAlphaMap_cached [where calc = calc0 and eng = ?e1 and k = "cacheKey 48 48"
      and m = "calc0 False 48 48" and ?w2.0 = 96 and ?h2.0 = "Some 96"] s
  have "alphaMaps (snd (getAlphaMap calc0 ?e1 96 (Some 96))) (cacheKey 48 48)
      = Some (calc0 False 48 48)"
    by blast
  with c f n s show ?thesis by simp
qed

text \<open>
  C7. When the requested size is not in the cache, getAlphaMap derives the alpha map from
  the 96 capture exactly when the larger of width and height exceeds 72, and from the 48
  capture otherwise; the threshold is the constant 72 and does not involve the tier rule.
\<close>

theorem getAlphaMap_selects_capture:
  "alphaMaps eng (cacheKey w h) = None \<Longrightarrow>
     fst (getAlphaMap calc eng w (Some h))
       = calc (if max w h > 72 then bg96 (bgCaptures eng) else bg48 (bgCaptures eng)) w h"
  by (simp add: getAlphaMap_def Let_def)

theorem getAlphaMap_selects_capture_witness:
  "alphaMaps engine0 (cacheKey 73 10) = None
   \<and> fst (getAlphaMap calc0 engine0 73 (Some 10)) = calc0 True 73 10
   \<and> alphaMaps engine0 (cacheKey 72 72) = None
   \<and> fst (getAlphaMap calc0 engine0 72 (Some 72)) = calc0 False 72 72"
  using getAlphaMap_selects_capture [of engine0 73 10 calc0]
    getAlphaMap_selects_capture [of engine0 72 72 calc0]
  by (simp add: engine0_def)

text \<open>
  C10. With the height argument omitted, the height defaults to the width: the call
  returns the same alpha map and the same engine (hence the same cache entry) as the call
  with both arguments equal to the width.
\<close>

theorem getAlphaMap_default_height:
  "getAlphaMap calc eng w None = getAlphaMap calc eng w (Some w)"
  by (simp add: getAlphaMap_def)

section \<open>Loops over the pixel buffer\<close>

lemma upd_rel_refl: "upd_rel {} E s s"
  by (simp add: upd_rel_def)

lemma upd_rel_trans:
  assumes "upd_rel K E s s1" and "upd_rel L E s1 s2" and "K \<inter> L = {}"
  shows "upd_rel (K \<union> L) E s s2"
  unfolding upd_rel_def
proof (intro conjI allI ballI impI)
  show "length s2 = length s" using assms by (simp add: upd_rel_def)
next
  fix i assume "i \<notin> K \<union> L"
  then show "s2 ! i = s ! i" using assms(1,2) by (simp add: upd_rel_def)
next
  fix i assume i: "i \<in> K \<union> L"
  show "E i (s ! i) (s2 ! i)"
  proof (cases "i \<in> K")
    case True
    with assms(3) have "i \<notin> L" by blast
    with assms(2) have "s2 ! i = s1 ! i" by (simp add: upd_rel_def)
    moreover from True assms(1) have "E i (s ! i) (s1 ! i)" by (simp add: upd_rel_def)
    ultimately show ?thesis by simp
  next
    case False
    with i have l: "i \<in> L" by simp
    from False assms(1) have "s1 ! i = s ! i" by (simp add: upd_rel_def)
    moreover from l assms(2) have "E i (s1 ! i) (s2 ! i)" by (simp add: upd_rel_def)
    ultimately show ?thesis by simp
  qed
qed

lemma foldE_upd_rel:
  assumes "\<And>a s s'. a \<in> set as \<Longrightarrow> f a s = Inr s' \<Longrightarrow> upd_rel (K a) E s s'"
    and "\<And>a b. a \<in> set as \<Longrightarrow> b \<in> set as \<Longrightarrow> a \<noteq> b \<Longrightarrow> K a \<inter> K b = {}"
    and "distinct as"
    and "foldE f as s = Inr s'"
  shows "upd_rel (\<Union>a\<in>set as. K a) E s s'"
  using assms
proof (induction as arbitrary: s)
  case Nil
  then show ?case by (simp add: upd_rel_refl)
next
  case (Cons a as)
  from Cons.prems(4) obtain s1 where s1: "f a s = Inr s1" and rest: "foldE f as s1 = Inr s'"
    by (auto split: sum.splits)
  have first: "upd_rel (K a) E s s1" using Cons.prems(1) s1 by simp
  have tail: "upd_rel (\<Union>b\<in>set as. K b) E s1 s'"
  proof (rule Cons.IH)
    show "\<And>b t t'. b \<in> set as \<Longrightarrow> f b t = Inr t' \<Longrightarrow> upd_rel (K b) E t t'"
      using Cons.prems(1) by simp
    show "\<And>b c. b \<in> set as \<Longrightarrow> c \<in> set as \<Longrightarrow> b \<noteq> c \<Longrightarrow> K b \<inter> K c = {}"
      using Cons.prems(2) by simp
    show "distinct as" using Cons.prems(3) by simp
    show "foldE f as s1 = Inr s'" by (rule rest)
  qed
  have "K a \<inter> (\<Union>b\<in>set as. K b) = {}"
  proof -
    have "K a \<inter> K b = {}" if "b \<in> set as" for b
    proof -
      from that Cons.prems(3) have "a \<noteq> b" by auto
      with that show ?thesis using Cons.prems(2) [of a b] by simp
    qed
    then show ?thesis by blast
  qed
  with first tail have "upd_rel (K a \<union> (\<Union>b\<in>set as. K b)) E s s'" by (rule upd_rel_trans)
  then show ?case by simp
qed

lemma foldE_total:
  assumes "\<And>a s. a \<in> set as \<Longrightarrow> P s \<Longrightarrow> \<exists>s'. f a s = Inr s' \<and> P s'" and "P s"
  shows "\<exists>s'. foldE f as s = Inr s' \<and> P s'"
  using assms
proof (induction as arbitrary: s)
  case Nil
  then show ?case by simp
next
  case (Cons a as)
  from Cons.prems obtain s1 where s1: "f a s = Inr s1" "P s1" by (meson list.set_intros(1))
  have "\<exists>s'. foldE f as s1 = Inr s' \<and> P s'"
    by (rule Cons.IH) (use Cons.prems(1) s1 in auto)
  with s1 show ?case by simp
qed

lemma foldE_error:
  "foldE f as s = Inl e \<Longrightarrow> \<exists>a\<in>set as. \<exists>t. f a t = Inl e"
proof (induction as arbitrary: s)
  case Nil
  then show ?case by simp
next
  case (Cons a as)
  then show ?case by (cases "f a s") auto
qed

lemma pixelIndex_inj:
  assumes "x < W" "x' < W" "c < 4" "c' < 4" "pixelIndex W x y c = pixelIndex W x' y' c'"
  shows "x = x' \<and> y = y' \<and> c = c'"
proof -
  define p where "p = y * W + x"
  define p' where "p' = y' * W + x'"
  from assms(5) have "p * 4 + c = p' * 4 + c'"
    by (simp add: pixelIndex_def p_def p'_def)
  with assms(3,4) have pc: "p = p' \<and> c = c'" by arith
  have "p mod W = x" "p div W = y" using assms(1) by (simp_all add: p_def)
  moreover have "p' mod W = x'" "p' div W = y'" using assms(2) by (simp_all add: p'_def)
  ultimately show ?thesis using pc by auto
qed

lemma grid_index_bound:
  fixes a b A B :: nat
  assumes "a < A" "b < B"
  shows "b * A + a < A * B"
proof -
  have "b * A + a < b * A + A" using assms(1) by simp
  also have "\<dots> = Suc b * A" by simp
  also have "\<dots> \<le> B * A" using assms(2) by (intro mult_le_mono1) simp
  finally show ?thesis by (simp add: mult.commute)
qed

lemma pixelIndex_bound:
  assumes "x < W" "y < H" "c < 4"
  shows "pixelIndex W x y c < W * H * 4"
proof -
  define p where "p = y * W + x"
  define n where "n = W * H"
  have "p < n" unfolding p_def n_def using assms(1,2) by (rule grid_index_bound)
  with assms(3) have "p * 4 + c < n * 4" by arith
  then show ?thesis by (simp add: pixelIndex_def p_def n_def)
qed

section \<open>The removal transform, level by level\<close>

lemma clampByte_uint: "clampByte (uint b) = b"
proof -
  have "uint b < 2 ^ 8" "0 \<le> uint b" using uint_bounded [of b] by simp_all
  then have "max 0 (min 255 (uint b)) = uint b" by simp
  then show ?thesis by (simp add: clampByte_def)
qed

lemma invertChannel_value:
  "invertChannel alpha l observed =
     Inr (if alpha < 1
          then clampByte (round ((of_nat (unat observed) - alpha * l) / (1 - alpha)))
          else observed)"
proof (cases "alpha < 1")
  case True
  then have "1 - alpha \<noteq> 0" by simp
  with True show ?thesis by (simp add: invertChannel_def divide_def)
next
  case False
  have "round (of_nat (unat observed) :: rat) = int (unat observed)"
    using round_of_nat by blast
  with False show ?thesis by (simp add: invertChannel_def clampByte_uint)
qed

lemma restoreChannel_upd:
  assumes "c < 3" "x < W" "alphaAt am (int x - rect_x r) (int y - rect_y r) = Inr alpha"
    and "restoreChannel logo alpha W x y c s = Inr s'"
  shows "upd_rel {pixelIndex W x y c} (restored logo am r W) s s'"
proof -
  let ?i = "pixelIndex W x y c"
  from assms(4) obtain v where i: "?i < length s"
    and v: "invertChannel alpha (logo c) (s ! ?i) = Inr v" and s': "s' = s[?i := v]"
    by (auto simp: restoreChannel_def Let_def split: if_splits sum.splits)
  have "restored logo am r W ?i (s ! ?i) v"
    unfolding restored_def using assms(1-3) v by blast
  with i s' show ?thesis by (simp add: upd_rel_def)
qed

lemma pixelSet_disjoint:
  assumes "x < W" "x' < W" "(x, y) \<noteq> (x', y')"
  shows "pixelSet W x y \<inter> pixelSet W x' y' = {}"
proof -
  have False if "c < 3" "c' < 3" "pixelIndex W x y c = pixelIndex W x' y' c'" for c c'
  proof -
    from that have "c < 4" "c' < 4" by simp_all
    then have "x = x' \<and> y = y' \<and> c = c'"
      using pixelIndex_inj [OF assms(1,2) _ _ that(3)] by simp
    with assms(3) show False by simp
  qed
  then show ?thesis unfolding pixelSet_def by fastforce
qed

lemma restorePixel_upd:
  assumes "x < W" "restorePixel logo am r W y x s = Inr s'"
  shows "upd_rel (pixelSet W x y) (restored logo am r W) s s'"
proof -
  from assms(2) obtain alpha where a: "alphaAt am (int x - rect_x r) (int y - rect_y r) = Inr alpha"
    and f: "foldE (restoreChannel logo alpha W x y) [0..<3] s = Inr s'"
    by (auto simp: restorePixel_def split: sum.splits)
  have "upd_rel (\<Union>c\<in>set [0..<3]. {pixelIndex W x y c}) (restored logo am r W) s s'"
  proof (rule foldE_upd_rel [OF _ _ _ f])
    show "\<And>c t t'. c \<in> set [0..<3] \<Longrightarrow> restoreChannel logo alpha W x y c t = Inr t'
            \<Longrightarrow> upd_rel {pixelIndex W x y c} (restored logo am r W) t t'"
      using restoreChannel_upd [OF _ assms(1) a] by simp
    show "\<And>c d. c \<in> set [0..<3] \<Longrightarrow> d \<in> set [0..<3] \<Longrightarrow> c \<noteq> d
            \<Longrightarrow> {pixelIndex W x y c} \<inter> {pixelIndex W x y d} = {}"
      by (simp add: pixelIndex_def)
    show "distinct [0..<3]" by simp
  qed
  then show ?thesis by (simp only: pixelSet_def)
qed

lemma restoreRow_upd:
  assumes "x1 \<le> W" "restoreRow logo am r W x0 x1 y s = Inr s'"
  shows "upd_rel (rowSet W x0 x1 y) (restored logo am r W) s s'"
proof -
  from assms(2) have f: "foldE (restorePixel logo am r W y) [x0..<x1] s = Inr s'"
    by (simp add: restoreRow_def)
  have "upd_rel (\<Union>x\<in>set [x0..<x1]. pixelSet W x y) (restored logo am r W) s s'"
  proof (rule foldE_upd_rel [OF _ _ _ f])
    show "\<And>x t t'. x \<in> set [x0..<x1] \<Longrightarrow> restorePixel logo am r W y x t = Inr t'
            \<Longrightarrow> upd_rel (pixelSet W x y) (restored logo am r W) t t'"
      using assms(1) by (intro restorePixel_upd) auto
    show "\<And>a b. a \<in> set [x0..<x1] \<Longrightarrow> b \<in> set [x0..<x1] \<Longrightarrow> a \<noteq> b
            \<Longrightarrow> pixelSet W a y \<inter> pixelSet W b y = {}"
      using assms(1) by (intro pixelSet_disjoint) auto
    show "distinct [x0..<x1]" by simp
  qed
  then show ?thesis by (simp only: rowSet_def)
qed

lemma rowSet_disjoint:
  assumes "x1 \<le> W" "y \<noteq> y'"
  shows "rowSet W x0 x1 y \<inter> rowSet W x0 x1 y' = {}"
proof -
  have "pixelSet W a y \<inter> pixelSet W b y' = {}" if "a \<in> set [x0..<x1]" "b \<in> set [x0..<x1]" for a b
    using that assms by (intro pixelSet_disjoint) auto
  then show ?thesis unfolding rowSet_def by blast
qed

lemma rows_upd:
  assumes "x1 \<le> W" "foldE (restoreRow logo am r W x0 x1) [y0..<y1] s = Inr s'"
  shows "upd_rel (\<Union>y\<in>set [y0..<y1]. rowSet W x0 x1 y) (restored logo am r W) s s'"
proof (rule foldE_upd_rel [OF _ _ _ assms(2)])
  show "\<And>y t t'. y \<in> set [y0..<y1] \<Longrightarrow> restoreRow logo am r W x0 x1 y t = Inr t'
          \<Longrightarrow> upd_rel (rowSet W x0 x1 y) (restored logo am r W) t t'"
    using assms(1) by (intro restoreRow_upd)
  show "\<And>a b. a \<in> set [y0..<y1] \<Longrightarrow> b \<in> set [y0..<y1] \<Longrightarrow> a \<noteq> b
          \<Longrightarrow> rowSet W x0 x1 a \<inter> rowSet W x0 x1 b = {}"
    using assms(1) by (intro rowSet_disjoint)
  show "distinct [y0..<y1]" by simp
qed

lemma touched_iff:
  "i \<in> (\<Union>y\<in>set [y0..<y1]. rowSet W x0 x1 y)
     \<longleftrightarrow> (\<exists>x y c. x0 \<le> x \<and> x < x1 \<and> y0 \<le> y \<and> y < y1 \<and> c < 3 \<and> i = pixelIndex W x y c)"
  unfolding rowSet_def pixelSet_def by (simp add: Bex_def) blast

lemma clipped_touched:
  "(\<Union>y\<in>set [nat (max 0 (rect_y r))..<nat (min (int (img_height img)) (rect_y r + rect_height r))].
      rowSet (img_width img) (nat (max 0 (rect_x r)))
        (nat (min (int (img_width img)) (rect_x r + rect_width r))) y)
   = touched img r"
proof -
  have "(nat (max 0 (rect_x r)) \<le> x \<and> x < nat (min (int (img_width img)) (rect_x r + rect_width r))
         \<and> nat (max 0 (rect_y r)) \<le> y \<and> y < nat (min (int (img_height img)) (rect_y r + rect_height r)))
        \<longleftrightarrow> (insideRect r x y \<and> x < img_width img \<and> y < img_height img)" for x y
    unfolding insideRect_def by auto
  then show ?thesis
    unfolding touched_def by (intro set_eqI) (simp only: touched_iff mem_Collect_eq, blast)
qed

lemma removeWatermark_upd:
  assumes "removeWatermark logo img am r = Inr out"
  shows "img_width out = img_width img \<and> img_height out = img_height img
         \<and> upd_rel (touched img r) (restored logo am r (img_width img)) (img_data img) (img_data out)"
proof -
  let ?x0 = "max 0 (rect_x r)" and ?y0 = "max 0 (rect_y r)"
  let ?x1 = "min (int (img_width img)) (rect_x r + rect_width r)"
  let ?y1 = "min (int (img_height img)) (rect_y r + rect_height r)"
  let ?T = "\<Union>y\<in>set [nat ?y0..<nat ?y1]. rowSet (img_width img) (nat ?x0) (nat ?x1) y"
  show ?thesis
  proof (cases "?x1 - ?x0 \<le> 0 \<or> ?y1 - ?y0 \<le> 0")
    case True
    then have "[nat ?x0..<nat ?x1] = [] \<or> [nat ?y0..<nat ?y1] = []" by auto
    then have "?T = {}" by (auto simp: rowSet_def)
    then have "touched img r = {}" by (simp only: clipped_touched)
    moreover from True assms have "out = img" by (simp add: removeWatermark_def Let_def)
    ultimately show ?thesis by (simp add: upd_rel_refl)
  next
    case False
    with assms obtain d where
      f: "foldE (restoreRow logo am r (img_width img) (nat ?x0) (nat ?x1)) [nat ?y0..<nat ?y1]
            (img_data img) = Inr d"
      and out: "out = img\<lparr>img_data := d\<rparr>"
      by (auto simp: removeWatermark_def Let_def split: sum.splits)
    have "nat ?x1 \<le> img_width img" by simp
    then have "upd_rel ?T (restored logo am r (img_width img)) (img_data img) d"
      using f by (rule rows_upd)
    then have "upd_rel (touched img r) (restored logo am r (img_width img)) (img_data img) d"
      by (simp only: clipped_touched)
    with out show ?thesis by simp
  qed
qed

lemma outside_not_touched:
  assumes "x < img_width img" "k < 4" "\<not> insideRect r x y"
  shows "pixelIndex (img_width img) x y k \<notin> touched img r"
proof
  assume "pixelIndex (img_width img) x y k \<in> touched img r"
  then obtain x' y' c where i: "insideRect r x' y'" "x' < img_width img" "c < 3"
    and e: "pixelIndex (img_width img) x y k = pixelIndex (img_width img) x' y' c"
    by (auto simp: touched_def)
  from i(3) have "c < 4" by simp
  from pixelIndex_inj [OF assms(1) i(2) assms(2) this e] have "x = x'" "y = y'" by simp_all
  with i(1) assms(3) show False by simp
qed

lemma alpha_not_touched: "4 * p + 3 \<notin> touched img r"
proof
  assume "4 * p + 3 \<in> touched img r"
  then obtain x y c where c: "c < 3" and "4 * p + 3 = pixelIndex (img_width img) x y c"
    by (auto simp: touched_def)
  then have "4 * p + 3 = (y * img_width img + x) * 4 + c" by (simp only: pixelIndex_def)
  moreover define q where "q = y * img_width img + x"
  ultimately have "4 * p + 3 = q * 4 + c" by simp
  with c show False by arith
qed

lemma removeWatermark_locality:
  assumes "removeWatermark logo img am r = Inr out"
  shows "img_width out = img_width img \<and> img_height out = img_height img
     \<and> length (img_data out) = length (img_data img)
     \<and> (\<forall>x y k. x < img_width img \<and> k < 4 \<and> \<not> insideRect r x y \<longrightarrow>
          img_data out ! pixelIndex (img_width img) x y k
            = img_data img ! pixelIndex (img_width img) x y k)
     \<and> (\<forall>p. img_data out ! (4 * p + 3) = img_data img ! (4 * p + 3))"
  using removeWatermark_upd [OF assms] outside_not_touched [of _ img _ r] alpha_not_touched [of _ img r]
  by (simp add: upd_rel_def)

lemma removeWatermark_inside:
  assumes "removeWatermark logo img am r = Inr out"
    and "insideRect r x y" "x < img_width img" "y < img_height img" "c < 3"
  shows "\<exists>alpha. alphaAt am (int x - rect_x r) (int y - rect_y r) = Inr alpha
       \<and> img_data out ! pixelIndex (img_width img) x y c
         = (if alpha < 1
            then clampByte (round ((of_nat (unat (img_data img ! pixelIndex (img_width img) x y c))
                                     - alpha * logo c) / (1 - alpha)))
            else img_data img ! pixelIndex (img_width img) x y c)"
proof -
  let ?W = "img_width img"
  let ?i = "pixelIndex ?W x y c"
  have "\<exists>x' y' c'. insideRect r x' y' \<and> x' < ?W \<and> y' < img_height img \<and> c' < 3
          \<and> ?i = pixelIndex ?W x' y' c'"
    using assms(2-5) by (intro exI [of _ x] exI [of _ y] exI [of _ c]) simp
  then have "?i \<in> touched img r" unfolding touched_def by (rule CollectI)
  with removeWatermark_upd [OF assms(1)]
  have "restored logo am r ?W ?i (img_data img ! ?i) (img_data out ! ?i)"
    by (simp add: upd_rel_def)
  then obtain x' y' c' alpha where h: "x' < ?W" "c' < 3" "?i = pixelIndex ?W x' y' c'"
    and a: "alphaAt am (int x' - rect_x r) (int y' - rect_y r) = Inr alpha"
    and v: "invertChannel alpha (logo c') (img_data img ! ?i) = Inr (img_data out ! ?i)"
    unfolding restored_def by blast
  from assms(5) h(2) have "c < 4" "c' < 4" by simp_all
  from pixelIndex_inj [OF assms(3) h(1) this h(3)] have "x = x'" "y = y'" "c = c'" by simp_all
  with a v have a': "alphaAt am (int x - rect_x r) (int y - rect_y r) = Inr alpha"
    and v': "invertChannel alpha (logo c) (img_data img ! ?i) = Inr (img_data out ! ?i)" by simp_all
  from v' have "img_data out ! ?i
      = (if alpha < 1
         then clampByte (round ((of_nat (unat (img_data img ! ?i)) - alpha * logo c) / (1 - alpha)))
         else img_data img ! ?i)"
    unfolding invertChannel_value by simp
  with a' show ?thesis by (intro exI [of _ alpha] conjI)
qed

subsection \<open>Errors and totality\<close>

lemma restoreChannel_error: "restoreChannel logo alpha W x y c s = Inl e \<Longrightarrow> e = OutOfBounds"
  by (simp add: restoreChannel_def Let_def invertChannel_value split: if_splits)

lemma restorePixel_error:
  assumes "restorePixel logo am r W y x s = Inl e"
  shows "e = OutOfBounds"
proof (cases "alphaAt am (int x - rect_x r) (int y - rect_y r)")
  case (Inl e')
  then have "e' = OutOfBounds" by (simp add: alphaAt_def split: if_splits)
  with Inl assms show ?thesis by (simp add: restorePixel_def)
next
  case (Inr alpha)
  with assms have "foldE (restoreChannel logo alpha W x y) [0..<3] s = Inl e"
    by (simp add: restorePixel_def)
  then have "\<exists>c t. restoreChannel logo alpha W x y c t = Inl e"
    by (blast dest: foldE_error)
  then obtain c t where "restoreChannel logo alpha W x y c t = Inl e" by blast
  then show ?thesis by (rule restoreChannel_error)
qed

lemma restoreRow_error:
  assumes "restoreRow logo am r W x0 x1 y s = Inl e"
  shows "e = OutOfBounds"
proof -
  from assms have "foldE (restorePixel logo am r W y) [x0..<x1] s = Inl e"
    by (simp add: restoreRow_def)
  then have "\<exists>x t. restorePixel logo am r W y x t = Inl e"
    by (blast dest: foldE_error)
  then obtain x t where "restorePixel logo am r W y x t = Inl e" by blast
  then show ?thesis by (rule restorePixel_error)
qed

lemma removeWatermark_error:
  assumes "removeWatermark logo img am r = Inl e"
  shows "e = OutOfBounds"
proof -
  from assms obtain W x0 x1 ys where
    "foldE (restoreRow logo am r W x0 x1) ys (img_data img) = Inl e"
    by (simp add: removeWatermark_def Let_def split: if_splits sum.splits)
  then have "\<exists>y t. restoreRow logo am r W x0 x1 y t = Inl e"
    by (blast dest: foldE_error)
  then obtain y t where "restoreRow logo am r W x0 x1 y t = Inl e" by blast
  then show ?thesis by (rule restoreRow_error)
qed

lemma restoreChannel_total:
  assumes "pixelIndex W x y c < length s"
  shows "\<exists>s'. restoreChannel logo alpha W x y c s = Inr s' \<and> length s' = length s"
  using assms by (simp add: restoreChannel_def Let_def invertChannel_value)

lemma alphaAt_total:
  assumes "alphaFits am r" "insideRect r x y"
  shows "\<exists>alpha. alphaAt am (int x - rect_x r) (int y - rect_y r) = Inr alpha"
proof -
  let ?col = "int x - rect_x r" and ?row = "int y - rect_y r"
  from assms have c: "0 \<le> ?col" "?col < int (am_width am)"
    and r: "0 \<le> ?row" "?row < int (am_height am)"
    by (simp_all add: alphaFits_def insideRect_def)
  then have "nat ?col < am_width am" "nat ?row < am_height am" by simp_all
  then have "nat ?row * am_width am + nat ?col < am_width am * am_height am"
    by (rule grid_index_bound)
  with assms(1) have "nat ?row * am_width am + nat ?col < length (am_data am)"
    by (simp add: alphaFits_def)
  with c r show ?thesis by (simp add: alphaAt_def)
qed

lemma restorePixel_total:
  assumes "alphaFits am r" "insideRect r x y" "x < W" "y < H" "length s = W * H * 4"
  shows "\<exists>s'. restorePixel logo am r W y x s = Inr s' \<and> length s' = W * H * 4"
proof -
  from alphaAt_total [OF assms(1,2)] obtain alpha
    where a: "alphaAt am (int x - rect_x r) (int y - rect_y r) = Inr alpha" by blast
  have "\<exists>s'. foldE (restoreChannel logo alpha W x y) [0..<3] s = Inr s' \<and> length s' = W * H * 4"
  proof (rule foldE_total)
    fix c and t :: "8 word list"
    assume c: "c \<in> set [0..<3]" and t: "length t = W * H * 4"
    from c have "c < 4" by simp
    with assms(3,4) have "pixelIndex W x y c < W * H * 4" by (rule pixelIndex_bound)
    with t show "\<exists>t'. restoreChannel logo alpha W x y c t = Inr t' \<and> length t' = W * H * 4"
      using restoreChannel_total [of W x y c t logo alpha] by simp
  qed (rule assms(5))
  with a show ?thesis by (simp add: restorePixel_def)
qed

lemma removeWatermark_total:
  assumes "wellFormed img" "alphaFits am r"
  shows "\<exists>out. removeWatermark logo img am r = Inr out"
proof -
  let ?W = "img_width img" and ?H = "img_height img"
  let ?x0 = "max 0 (rect_x r)" and ?y0 = "max 0 (rect_y r)"
  let ?x1 = "min (int ?W) (rect_x r + rect_width r)"
  let ?y1 = "min (int ?H) (rect_y r + rect_height r)"
  let ?P = "\<lambda>s :: 8 word list. length s = ?W * ?H * 4"
  have len: "?P (img_data img)" using assms(1) by (simp add: wellFormed_def)
  have "\<exists>d. foldE (restoreRow logo am r ?W (nat ?x0) (nat ?x1)) [nat ?y0..<nat ?y1] (img_data img) = Inr d
          \<and> ?P d"
  proof (rule foldE_total [where P = ?P, OF _ len])
    fix y t assume y: "y \<in> set [nat ?y0..<nat ?y1]" and t: "?P t"
    show "\<exists>t'. restoreRow logo am r ?W (nat ?x0) (nat ?x1) y t = Inr t' \<and> ?P t'"
      unfolding restoreRow_def
    proof (rule foldE_total [where P = ?P, OF _ t])
      fix x u assume x: "x \<in> set [nat ?x0..<nat ?x1]" and u: "?P u"
      from x y have "insideRect r x y" "x < ?W" "y < ?H" by (auto simp: insideRect_def)
      with assms(2) show "\<exists>u'. restorePixel logo am r ?W y x u = Inr u' \<and> ?P u'"
        using u by (intro restorePixel_total)
    qed
  qed
  then show ?thesis by (auto simp: removeWatermark_def Let_def)
qed

lemma removeWatermark_noop:
  assumes "rect_width r \<le> 0 \<or> rect_height r \<le> 0
           \<or> int (img_width img) \<le> rect_x r \<or> int (img_height img) \<le> rect_y r
           \<or> rect_x r + rect_width r \<le> 0 \<or> rect_y r + rect_height r \<le> 0"
  shows "removeWatermark logo img am r = Inr img"
proof -
  from assms have
    "min (int (img_width img)) (rect_x r + rect_width r) - max 0 (rect_x r) \<le> 0
     \<or> min (int (img_height img)) (rect_y r + rect_height r) - max 0 (rect_y r) \<le> 0"
    by auto
  then show ?thesis by (simp add: removeWatermark_def Let_def)
qed

lemma alphaAt_value:
  assumes "alphaFits am r" "insideRect r x y"
  shows "alphaAt am (int x - rect_x r) (int y - rect_y r)
       = Inr (am_data am ! (nat (int y - rect_y r) * am_width am + nat (int x - rect_x r)))"
proof -
  let ?col = "int x - rect_x r" and ?row = "int y - rect_y r"
  from assms have c: "0 \<le> ?col" "?col < int (am_width am)"
    and r: "0 \<le> ?row" "?row < int (am_height am)"
    by (simp_all add: alphaFits_def insideRect_def)
  then have "nat ?col < am_width am" "nat ?row < am_height am" by simp_all
  then have "nat ?row * am_width am + nat ?col < am_width am * am_height am"
    by (rule grid_index_bound)
  with assms(1) have "nat ?row * am_width am + nat ?col < length (am_data am)"
    by (simp add: alphaFits_def)
  with c r show ?thesis by (simp add: alphaAt_def)
qed

lemma removeWatermark_pointwise:
  assumes run: "removeWatermark logo img am r = Inr out"
    and fits: "alphaFits am r"
    and x: "x < img_width img" and y: "y < img_height img" and c: "c < 4"
  shows "img_data out ! pixelIndex (img_width img) x y c
       = (if insideRect r x y \<and> c < 3
          then (if am_data am ! (nat (int y - rect_y r) * am_width am + nat (int x - rect_x r)) < 1
                then clampByte (round
                  ((of_nat (unat (img_data img ! pixelIndex (img_width img) x y c))
                     - am_data am ! (nat (int y - rect_y r) * am_width am + nat (int x - rect_x r))
                       * logo c)
                   / (1 - am_data am ! (nat (int y - rect_y r) * am_width am + nat (int x - rect_x r)))))
                else img_data img ! pixelIndex (img_width img) x y c)
          else img_data img ! pixelIndex (img_width img) x y c)"
proof (cases "insideRect r x y")
  case False
  with removeWatermark_locality [OF run] x c show ?thesis by simp
next
  case True
  show ?thesis
  proof (cases "c < 3")
    case False
    with c have c3: "c = 3" by simp
    have "pixelIndex (img_width img) x y 3 = 4 * (y * img_width img + x) + 3"
      by (simp add: pixelIndex_def)
    moreover from removeWatermark_locality [OF run]
    have "img_data out ! (4 * (y * img_width img + x) + 3)
        = img_data img ! (4 * (y * img_width img + x) + 3)" by blast
    ultimately show ?thesis using c3 by simp
  next
    case c: True
    from removeWatermark_inside [OF run True x y c] obtain alpha where
      a: "alphaAt am (int x - rect_x r) (int y - rect_y r) = Inr alpha"
      and v: "img_data out ! pixelIndex (img_width img) x y c
         = (if alpha < 1
            then clampByte (round ((of_nat (unat (img_data img ! pixelIndex (img_width img) x y c))
                                     - alpha * logo c) / (1 - alpha)))
            else img_data img ! pixelIndex (img_width img) x y c)"
      by blast
    from a have "alpha = am_data am ! (nat (int y - rect_y r) * am_width am + nat (int x - rect_x r))"
      unfolding alphaAt_value [OF fits True] by (simp only: sum.inject)
    with v True c show ?thesis by (simp only: if_True simp_thms)
  qed
qed

lemma removeWatermarkFromImage_fst:
  "fst (removeWatermarkFromImage calc logo eng img cp)
     = removeWatermark logo img
         (fst (getAlphaMap calc eng (rect_width (resolvedPosition img cp))
                 (Some (rect_height (resolvedPosition img cp)))))
         (resolvedPosition img cp)"
  by (cases cp)
    (simp_all add: removeWatermarkFromImage_def resolvedPosition_def Let_def case_prod_beta)

lemma removeWatermark_example: "removeWatermark logo0 image0 alphaMap0 rect0 = Inr restored0"
  by code_simp

lemma removeWatermark_overhang_example:
  "removeWatermark logo0 image0 alphaMap3 rect3 = Inr restored3"
  by code_simp

lemma removeWatermarkFromImage_example:
  "fst (removeWatermarkFromImage calc0 logo0 engine0 image0 (Some rect1)) = Inr restored1"
  by (simp add: removeWatermarkFromImage_fst getAlphaMap_def engine0_def resolvedPosition_def) code_simp

section \<open>Properties of watermark removal\<close>

text \<open>
  C3. Whenever removal returns an image, the image has the dimensions and the length of
  the input, every byte of every pixel outside the resolved rectangle is the same in
  input and output, and the alpha byte of every pixel is the same in input and output.
\<close>

theorem removal_locality:
  "fst (removeWatermarkFromImage calc logo eng img cp) = Inr out \<Longrightarrow>
     img_width out = img_width img \<and> img_height out = img_height img
     \<and> length (img_data out) = length (img_data img)
     \<and> (\<forall>x y k. x < img_width img \<and> k < 4 \<and> \<not> insideRect (resolvedPosition img cp) x y \<longrightarrow>
          img_data out ! pixelIndex (img_width img) x y k
            = img_data img ! pixelIndex (img_width img) x y k)
     \<and> (\<forall>p. img_data out ! (4 * p + 3) = img_data img ! (4 * p + 3))"
  unfolding removeWatermarkFromImage_fst by (rule removeWatermark_locality)

theorem removal_locality_witness:
  "fst (removeWatermarkFromImage calc0 logo0 engine0 image0 (Some rect1)) = Inr restored1
   \<and> \<not> insideRect (resolvedPosition image0 (Some rect1)) 0 1
   \<and> img_data restored1 ! pixelIndex 2 0 1 2 = img_data image0 ! pixelIndex 2 0 1 2
   \<and> img_data restored1 ! (4 * 3 + 3) = img_data image0 ! (4 * 3 + 3)"
proof -
  note loc = removal_locality [OF removeWatermarkFromImage_example]
  have out: "\<not> insideRect (resolvedPosition image0 (Some rect1)) 0 1"
    by (simp add: insideRect_def resolvedPosition_def rect1_def)
  from loc have "img_data restored1 ! pixelIndex (img_width image0) 0 1 2
      = img_data image0 ! pixelIndex (img_width image0) 0 1 2"
    using out by (simp add: image0_def)
  moreover from loc have "img_data restored1 ! (4 * 3 + 3) = img_data image0 ! (4 * 3 + 3)"
    by blast
  ultimately show ?thesis
    using removeWatermarkFromImage_example out by (simp add: image0_def)
qed

text \<open>
  C4. The transform never divides by zero; and for every pixel of the image inside the
  rectangle and every colour channel, the output value is the clamped, rounded
  \<open>(observed - alpha * LOGO_COLOR[c]) / (1 - alpha)\<close> when the pixel's alpha coefficient is
  below 1, and the observed value otherwise.
\<close>

theorem removeWatermark_inverts:
  "removeWatermark logo img am r \<noteq> Inl DivisionByZero
   \<and> (removeWatermark logo img am r = Inr out \<and> insideRect r x y
        \<and> x < img_width img \<and> y < img_height img \<and> c < 3 \<longrightarrow>
       (\<exists>alpha. alphaAt am (int x - rect_x r) (int y - rect_y r) = Inr alpha
          \<and> img_data out ! pixelIndex (img_width img) x y c
            = (if alpha < 1
               then clampByte (round ((of_nat (unat (img_data img ! pixelIndex (img_width img) x y c))
                                        - alpha * logo c) / (1 - alpha)))
               else img_data img ! pixelIndex (img_width img) x y c)))"
proof (intro conjI impI)
  show "removeWatermark logo img am r \<noteq> Inl DivisionByZero"
    using removeWatermark_error [of logo img am r DivisionByZero] by auto
next
  assume "removeWatermark logo img am r = Inr out \<and> insideRect r x y
        \<and> x < img_width img \<and> y < img_height img \<and> c < 3"
  then show "\<exists>alpha. alphaAt am (int x - rect_x r) (int y - rect_y r) = Inr alpha
          \<and> img_data out ! pixelIndex (img_width img) x y c
            = (if alpha < 1
               then clampByte (round ((of_nat (unat (img_data img ! pixelIndex (img_width img) x y c))
                                        - alpha * logo c) / (1 - alpha)))
               else img_data img ! pixelIndex (img_width img) x y c)"
    using removeWatermark_inside [of logo img am r out x y c] by simp
qed

theorem removeWatermark_inverts_witness:
  "removeWatermark logo0 image0 alphaMap0 rect0 = Inr restored0
   \<and> insideRect rect0 0 1 \<and> insideRect rect0 1 1
   \<and> alphaAt alphaMap0 (int 0 - rect_x rect0) (int 1 - rect_y rect0) = Inr (1 / 2)
   \<and> img_data restored0 ! pixelIndex (img_width image0) 0 1 0
       = clampByte (round ((of_nat (unat (img_data image0 ! pixelIndex (img_width image0) 0 1 0))
                             - 1 / 2 * logo0 0) / (1 - 1 / 2)))
   \<and> img_data restored0 ! pixelIndex (img_width image0) 0 1 0 = 145
   \<and> alphaAt alphaMap0 (int 1 - rect_x rect0) (int 1 - rect_y rect0) = Inr 1
   \<and> img_data restored0 ! pixelIndex (img_width image0) 1 1 0
       = img_data image0 ! pixelIndex (img_width image0) 1 1 0"
proof -
  note ex = removeWatermark_example
  have i: "insideRect rect0 0 1" "insideRect rect0 1 1"
    by (simp_all add: insideRect_def rect0_def)
  have b: "(0::nat) < img_width image0" "(1::nat) < img_width image0"
    "(1::nat) < img_height image0" "(0::nat) < 3"
    by (simp_all add: image0_def)
  have a: "alphaAt alphaMap0 (int 0 - rect_x rect0) (int 1 - rect_y rect0) = Inr (1 / 2)"
    "alphaAt alphaMap0 (int 1 - rect_x rect0) (int 1 - rect_y rect0) = Inr 1"
    by (simp_all add: alphaAt_def alphaMap0_def rect0_def)
  from removeWatermark_inverts [of logo0 image0 alphaMap0 rect0 restored0 0 1 0] ex i(1) b
  obtain alpha where
    al: "alphaAt alphaMap0 (int 0 - rect_x rect0) (int 1 - rect_y rect0) = Inr alpha"
    and v: "img_data restored0 ! pixelIndex (img_width image0) 0 1 0
      = (if alpha < 1
         then clampByte (round ((of_nat (unat (img_data image0 ! pixelIndex (img_width image0) 0 1 0))
                                  - alpha * logo0 0) / (1 - alpha)))
         else img_data image0 ! pixelIndex (img_width image0) 0 1 0)"
    by blast
  from al have "Inr alpha = (Inr (1 / 2) :: error + rat)" unfolding a(1) by (rule sym)
  then have "alpha = 1 / 2" by (simp only: sum.inject)
  from v [unfolded this] have v0: "img_data restored0 ! pixelIndex (img_width image0) 0 1 0
      = clampByte (round ((of_nat (unat (img_data image0 ! pixelIndex (img_width image0) 0 1 0))
                            - 1 / 2 * logo0 0) / (1 - 1 / 2)))"
    by simp
  have n0: "img_data restored0 ! pixelIndex (img_width image0) 0 1 0 = 145"
    by (simp add: restored0_def image0_def pixelIndex_def)
  from removeWatermark_inverts [of logo0 image0 alphaMap0 rect0 restored0 1 1 0] ex i(2) b
  obtain alpha' where
    al': "alphaAt alphaMap0 (int 1 - rect_x rect0) (int 1 - rect_y rect0) = Inr alpha'"
    and v': "img_data restored0 ! pixelIndex (img_width image0) 1 1 0
      = (if alpha' < 1
         then clampByte (round ((of_nat (unat (img_data image0 ! pixelIndex (img_width image0) 1 1 0))
                                  - alpha' * logo0 0) / (1 - alpha')))
         else img_data image0 ! pixelIndex (img_width image0) 1 1 0)"
    by blast
  from al' have "Inr alpha' = (Inr 1 :: error + rat)" unfolding a(2) by (rule sym)
  then have "alpha' = 1" by (simp only: sum.inject)
  from v' [unfolded this] have v1: "img_data restored0 ! pixelIndex (img_width image0) 1 1 0
      = img_data image0 ! pixelIndex (img_width image0) 1 1 0"
    by simp
  from ex i a v0 n0 v1 show ?thesis by (intro conjI)
qed

text \<open>
  C5. A rectangle whose clipped width or height is zero or negative (in particular a
  rectangle of non-positive size or one that lies wholly outside the image) makes the
  transform return the input unchanged, not an error. For any rectangle, also one that
  extends past the image on any side, the transform of a well-formed image with a fitting
  alpha map returns an image of the same dimensions and length, reading nothing outside
  the buffer or the alpha map, in which exactly the colour channels of the image's pixels
  inside the rectangle are restored, each from the coefficient at its position relative
  to the unclipped rectangle, and every other byte of the image is the input's: the
  rectangle is clipped to the image bounds, neither more nor less.
\<close>

theorem removeWatermark_clips:
  "(min (int (img_width img)) (rect_x r + rect_width r) - max 0 (rect_x r) \<le> 0
      \<or> min (int (img_height img)) (rect_y r + rect_height r) - max 0 (rect_y r) \<le> 0
      \<longrightarrow> removeWatermark logo img am r = Inr img)
   \<and> (rect_width r \<le> 0 \<or> rect_height r \<le> 0
        \<or> int (img_width img) \<le> rect_x r \<or> int (img_height img) \<le> rect_y r
        \<or> rect_x r + rect_width r \<le> 0 \<or> rect_y r + rect_height r \<le> 0
      \<longrightarrow> removeWatermark logo img am r = Inr img)
   \<and> (wellFormed img \<and> alphaFits am r \<longrightarrow>
        (\<exists>out. removeWatermark logo img am r = Inr out
           \<and> img_width out = img_width img \<and> img_height out = img_height img
           \<and> length (img_data out) = length (img_data img)
           \<and> (\<forall>x y c. x < img_width img \<and> y < img_height img \<and> c < 4 \<longrightarrow>
                img_data out ! pixelIndex (img_width img) x y c
                  = (if insideRect r x y \<and> c < 3
                     then (if am_data am ! (nat (int y - rect_y r) * am_width am
                                              + nat (int x - rect_x r)) < 1
                           then clampByte (round
                             ((of_nat (unat (img_data img ! pixelIndex (img_width img) x y c))
                                - am_data am ! (nat (int y - rect_y r) * am_width am
                                                  + nat (int x - rect_x r)) * logo c)
                              / (1 - am_data am ! (nat (int y - rect_y r) * am_width am
                                                     + nat (int x - rect_x r)))))
                           else img_data img ! pixelIndex (img_width img) x y c)
                     else img_data img ! pixelIndex (img_width img) x y c))))"
proof (intro conjI impI)
  assume "min (int (img_width img)) (rect_x r + rect_width r) - max 0 (rect_x r) \<le> 0
      \<or> min (int (img_height img)) (rect_y r + rect_height r) - max 0 (rect_y r) \<le> 0"
  then show "removeWatermark logo img am r = Inr img"
    by (simp add: removeWatermark_def Let_def)
next
  assume "rect_width r \<le> 0 \<or> rect_height r \<le> 0
        \<or> int (img_width img) \<le> rect_x r \<or> int (img_height img) \<le> rect_y r
        \<or> rect_x r + rect_width r \<le> 0 \<or> rect_y r + rect_height r \<le> 0"
  then show "removeWatermark logo img am r = Inr img" by (rule removeWatermark_noop)
next
  assume h: "wellFormed img \<and> alphaFits am r"
  then obtain out where run: "removeWatermark logo img am r = Inr out"
    using removeWatermark_total by blast
  from h have fits: "alphaFits am r" by simp
  note loc = removeWatermark_locality [OF run]
  show "\<exists>out. removeWatermark logo img am r = Inr out
           \<and> img_width out = img_width img \<and> img_height out = img_height img
           \<and> length (img_data out) = length (img_data img)
           \<and> (\<forall>x y c. x < img_width img \<and> y < img_height img \<and> c < 4 \<longrightarrow>
                img_data out ! pixelIndex (img_width img) x y c
                  = (if insideRect r x y \<and> c < 3
                     then (if am_data am ! (nat (int y - rect_y r) * am_width am
                                              + nat (int x - rect_x r)) < 1
                           then clampByte (round
                             ((of_nat (unat (img_data img ! pixelIndex (img_width img) x y c))
                                - am_data am ! (nat (int y - rect_y r) * am_width am
                                                  + nat (int x - rect_x r)) * logo c)
                              / (1 - am_data am ! (nat (int y - rect_y r) * am_width am
                                                     + nat (int x - rect_x r)))))
                           else img_data img ! pixelIndex (img_width img) x y c)
                     else img_data img ! pixelIndex (img_width img) x y c))"
  proof (intro exI [of _ out] conjI allI impI)
    show "removeWatermark logo img am r = Inr out" by (rule run)
    show "img_width out = img_width img" using loc by blast
    show "img_height out = img_height img" using loc by blast
    show "length (img_data out) = length (img_data img)" using loc by blast
  next
    fix x y c :: nat
    assume "x < img_width img \<and> y < img_height img \<and> c < 4"
    then have "x < img_width img" "y < img_height img" "c < 4" by simp_all
    then show "img_data out ! pixelIndex (img_width img) x y c
                  = (if insideRect r x y \<and> c < 3
                     then (if am_data am ! (nat (int y - rect_y r) * am_width am
                                              + nat (int x - rect_x r)) < 1
                           then clampByte (round
                             ((of_nat (unat (img_data img ! pixelIndex (img_width img) x y c))
                                - am_data am ! (nat (int y - rect_y r) * am_width am
                                                  + nat (int x - rect_x r)) * logo c)
                              / (1 - am_data am ! (nat (int y - rect_y r) * am_width am
                                                     + nat (int x - rect_x r)))))
                           else img_data img ! pixelIndex (img_width img) x y c)
                     else img_data img ! pixelIndex (img_width img) x y c)"
      by (rule removeWatermark_pointwise [OF run fits])
  qed
qed

theorem removeWatermark_clips_witness:
  "wellFormed image0 \<and> alphaFits alphaMap3 rect3
   \<and> rect_x rect3 < 0 \<and> rect_y rect3 < 0
   \<and> int (img_width image0) < rect_x rect3 + rect_width rect3
   \<and> int (img_height image0) < rect_y rect3 + rect_height rect3
   \<and> removeWatermark logo0 image0 alphaMap3 rect3 = Inr restored3
   \<and> img_data restored3 ! pixelIndex (img_width image0) 0 0 1
       = clampByte (round ((of_nat (unat (img_data image0 ! pixelIndex (img_width image0) 0 0 1))
                             - 1 / 20 * logo0 1) / (1 - 1 / 20)))
   \<and> img_data restored3 ! pixelIndex (img_width image0) 0 0 1 = 8
   \<and> img_data image0 ! pixelIndex (img_width image0) 0 0 1 = 20
   \<and> int (img_width image0) \<le> rect_x rect2
   \<and> removeWatermark logo0 image0 alphaMap1 rect2 = Inr image0"
proof -
  note ex = removeWatermark_overhang_example
  have w: "wellFormed image0" by (simp add: wellFormed_def image0_def)
  have f: "alphaFits alphaMap3 rect3" by (simp add: alphaFits_def alphaMap3_def rect3_def)
  have e: "rect_x rect3 < 0" "rect_y rect3 < 0"
    "int (img_width image0) < rect_x rect3 + rect_width rect3"
    "int (img_height image0) < rect_y rect3 + rect_height rect3"
    by (simp_all add: rect3_def image0_def)
  have b: "(0::nat) < img_width image0" "(0::nat) < img_height image0" "(1::nat) < 4"
    by (simp_all add: image0_def)
  have i: "insideRect rect3 0 0 \<and> (1::nat) < 3" by (simp add: insideRect_def rect3_def)
  have al: "am_data alphaMap3 ! (nat (int 0 - rect_y rect3) * am_width alphaMap3
              + nat (int 0 - rect_x rect3)) = 1 / 20"
    by (simp add: alphaMap3_def rect3_def)
  from removeWatermark_clips [of image0 rect3 logo0 alphaMap3] w f
  obtain out where run: "removeWatermark logo0 image0 alphaMap3 rect3 = Inr out"
    and pt: "\<forall>x y c. x < img_width image0 \<and> y < img_height image0 \<and> c < 4 \<longrightarrow>
       img_data out ! pixelIndex (img_width image0) x y c
         = (if insideRect rect3 x y \<and> c < 3
            then (if am_data alphaMap3 ! (nat (int y - rect_y rect3) * am_width alphaMap3
                                     + nat (int x - rect_x rect3)) < 1
                  then clampByte (round
                    ((of_nat (unat (img_data image0 ! pixelIndex (img_width image0) x y c))
                       - am_data alphaMap3 ! (nat (int y - rect_y rect3) * am_width alphaMap3
                                         + nat (int x - rect_x rect3)) * logo0 c)
                     / (1 - am_data alphaMap3 ! (nat (int y - rect_y rect3) * am_width alphaMap3
                                            + nat (int x - rect_x rect3)))))
                  else img_data image0 ! pixelIndex (img_width image0) x y c)
            else img_data image0 ! pixelIndex (img_width image0) x y c)"
    by blast
  from run ex have o3: "out = restored3" by simp
  from pt b have "img_data out ! pixelIndex (img_width image0) 0 0 1
      = (if insideRect rect3 0 0 \<and> (1::nat) < 3
         then (if am_data alphaMap3 ! (nat (int 0 - rect_y rect3) * am_width alphaMap3
                                     + nat (int 0 - rect_x rect3)) < 1
                  then clampByte (round
                    ((of_nat (unat (img_data image0 ! pixelIndex (img_width image0) 0 0 1))
                       - am_data alphaMap3 ! (nat (int 0 - rect_y rect3) * am_width alphaMap3
                                         + nat (int 0 - rect_x rect3)) * logo0 1)
                     / (1 - am_data alphaMap3 ! (nat (int 0 - rect_y rect3) * am_width alphaMap3
                                            + nat (int 0 - rect_x rect3)))))
                  else img_data image0 ! pixelIndex (img_width image0) 0 0 1)
         else img_data image0 ! pixelIndex (img_width image0) 0 0 1)"
    by blast
  with i have "img_data out ! pixelIndex (img_width image0) 0 0 1
      = (if am_data alphaMap3 ! (nat (int 0 - rect_y rect3) * am_width alphaMap3
                                     + nat (int 0 - rect_x rect3)) < 1
                  then clampByte (round
                    ((of_nat (unat (img_data image0 ! pixelIndex (img_width image0) 0 0 1))
                       - am_data alphaMap3 ! (nat (int 0 - rect_y rect3) * am_width alphaMap3
                                         + nat (int 0 - rect_x rect3)) * logo0 1)
                     / (1 - am_data alphaMap3 ! (nat (int 0 - rect_y rect3) * am_width alphaMap3
                                            + nat (int 0 - rect_x rect3)))))
                  else img_data image0 ! pixelIndex (img_width image0) 0 0 1)"
    by (simp only: if_True simp_thms)
  from this [unfolded al o3] have v: "img_data restored3 ! pixelIndex (img_width image0) 0 0 1
       = clampByte (round ((of_nat (unat (img_data image0 ! pixelIndex (img_width image0) 0 0 1))
                             - 1 / 20 * logo0 1) / (1 - 1 / 20)))"
    by simp
  have n: "img_data restored3 ! pixelIndex (img_width image0) 0 0 1 = 8"
    "img_data image0 ! pixelIndex (img_width image0) 0 0 1 = 20"
    by (simp_all add: restored3_def image0_def pixelIndex_def)
  have o: "int (img_width image0) \<le> rect_x rect2" by (simp add: image0_def rect2_def)
  from removeWatermark_clips [of image0 rect2 logo0 alphaMap1] o
  have z: "removeWatermark logo0 image0 alphaMap1 rect2 = Inr image0" by blast
  from w f e ex v n o z show ?thesis by (intro conjI)
qed

end
